theory Spec2Isabelle
  imports
    Main
    "HOL-Library.Sublist"
    "HOL-Library.Multiset"
    "HOL-Library.List_Lexorder"
    "HOL-Library.Product_Lexorder"
begin

section \<open>Text\<close>

text \<open>
  A Python \<open>str\<close> is a sequence of Unicode code points, here a list of naturals.
  \<open>lit\<close> writes an ASCII literal of the script as such a list.
\<close>

type_synonym ustr = "nat list"

definition lit :: "string \<Rightarrow> ustr" where
  "lit cs = map of_char cs"

text \<open>
  The script relies on two tables of the Unicode database of the interpreter, which are
  not part of the repository: \<open>str.isalnum\<close> on one character (it decides the class
  \<open>\w\<close> of the \<open>re\<close> module) and \<open>str.lower\<close>. They are taken as a parameter.
\<close>

record unicode =
  str_isalnum :: "nat \<Rightarrow> bool"
  str_lower :: "ustr \<Rightarrow> ustr"

text \<open>
  The class \<open>\s\<close> of a \<open>str\<close> pattern holds the characters of \<open>str.isspace\<close>:
  U+0009..U+000D, U+001C..U+0020, U+0085, U+00A0, U+1680, U+2000..U+200A, U+2028, U+2029,
  U+202F, U+205F and U+3000.
\<close>

definition is_space :: "nat \<Rightarrow> bool" where
  "is_space c \<longleftrightarrow>
     (9 \<le> c \<and> c \<le> 13) \<or> (28 \<le> c \<and> c \<le> 32) \<or> c = 133 \<or> c = 160 \<or> c = 5760 \<or>
     (8192 \<le> c \<and> c \<le> 8202) \<or> c = 8232 \<or> c = 8233 \<or> c = 8239 \<or> c = 8287 \<or> c = 12288"

text \<open>The class \<open>[A-Za-z_]\<close>.\<close>

definition is_id_start :: "nat \<Rightarrow> bool" where
  "is_id_start c \<longleftrightarrow> (65 \<le> c \<and> c \<le> 90) \<or> (97 \<le> c \<and> c \<le> 122) \<or> c = 95"

text \<open>The class \<open>\w\<close>: an alphanumeric character of the Unicode database, or the underscore.\<close>

definition is_word :: "unicode \<Rightarrow> nat \<Rightarrow> bool" where
  "is_word db c \<longleftrightarrow> str_isalnum db c \<or> c = 95"

section \<open>The pattern and its matcher\<close>

text \<open>
  The fragment of the pattern language that \<open>PUBLIC_DECL_RE\<close> is written in: the anchor
  \<open>^\<close>, literal text, one character of a class, a class under the greedy \<open>+\<close> and
  \<open>*\<close>, sequence, alternation, the greedy \<open>?\<close> and a numbered capturing group.
\<close>

datatype regex =
    Bol
  | Lit ustr
  | Cls "nat \<Rightarrow> bool"
  | Plus "nat \<Rightarrow> bool"
  | Star "nat \<Rightarrow> bool"
  | Seq regex regex
  | Alt regex regex
  | Opt regex
  | Grp nat regex

text \<open>
  What is left of the subject after a greedy \<open>*\<close> (respectively \<open>+\<close>) over a class, in
  the order in which the backtracking matcher tries the alternatives: the longest run
  first, then one character less at a time.
\<close>

fun star_rests :: "(nat \<Rightarrow> bool) \<Rightarrow> ustr \<Rightarrow> ustr list" where
  "star_rests p [] = [[]]"
| "star_rests p (c # cs) = (if p c then star_rests p cs @ [c # cs] else [c # cs])"

fun plus_rests :: "(nat \<Rightarrow> bool) \<Rightarrow> ustr \<Rightarrow> ustr list" where
  "plus_rests p [] = []"
| "plus_rests p (c # cs) = (if p c then star_rests p cs else [])"

text \<open>
  A state of the matcher is the rest of the subject and the groups captured so far.
  \<open>run s0 r st\<close> lists the states in which \<open>r\<close> can end when started in \<open>st\<close>, in the
  order in which backtracking reaches them; \<open>s0\<close> is the whole subject, which \<open>^\<close>
  needs to recognise position 0.
\<close>

type_synonym groups = "nat \<rightharpoonup> ustr"

type_synonym mstate = "ustr \<times> groups"

fun run :: "ustr \<Rightarrow> regex \<Rightarrow> mstate \<Rightarrow> mstate list" where
  "run s0 Bol (s, g) = (if length s = length s0 then [(s, g)] else [])"
| "run s0 (Lit w) (s, g) = (if prefix w s then [(drop (length w) s, g)] else [])"
| "run s0 (Cls p) (s, g) = (case s of [] \<Rightarrow> [] | c # cs \<Rightarrow> if p c then [(cs, g)] else [])"
| "run s0 (Plus p) (s, g) = map (\<lambda>r. (r, g)) (plus_rests p s)"
| "run s0 (Star p) (s, g) = map (\<lambda>r. (r, g)) (star_rests p s)"
| "run s0 (Seq a b) st = concat (map (run s0 b) (run s0 a st))"
| "run s0 (Alt a b) st = run s0 a st @ run s0 b st"
| "run s0 (Opt a) st = run s0 a st @ [st]"
| "run s0 (Grp n a) (s, g) =
     map (\<lambda>(r, g'). (r, g'(n \<mapsto> take (length s - length r) s))) (run s0 a (s, g))"

text \<open>
  \<open>Pattern.match\<close>: the match is tried at position 0 only, and the first way of matching
  that backtracking finds is the result; \<open>None\<close> when there is none.
\<close>

definition re_match :: "regex \<Rightarrow> ustr \<Rightarrow> groups option" where
  "re_match r s = (case run s r (s, Map.empty) of [] \<Rightarrow> None | (_, g) # _ \<Rightarrow> Some g)"

text \<open>
  \<^verbatim>\<open>^public\s+(?:final\s+)?(struct|enum|protocol|class|actor|typealias|func|var|let)\s+([A-Za-z_]\w*)\<close>
\<close>

definition KIND_RE :: regex where
  "KIND_RE =
     Alt (Lit (lit ''struct'')) (Alt (Lit (lit ''enum'')) (Alt (Lit (lit ''protocol''))
    (Alt (Lit (lit ''class'')) (Alt (Lit (lit ''actor'')) (Alt (Lit (lit ''typealias''))
    (Alt (Lit (lit ''func'')) (Alt (Lit (lit ''var'')) (Lit (lit ''let'')))))))))"

definition PUBLIC_DECL_RE :: "unicode \<Rightarrow> regex" where
  "PUBLIC_DECL_RE db =
     Seq Bol (Seq (Lit (lit ''public'')) (Seq (Plus is_space)
    (Seq (Opt (Seq (Lit (lit ''final'')) (Plus is_space)))
    (Seq (Grp 1 KIND_RE) (Seq (Plus is_space)
         (Grp 2 (Seq (Cls is_id_start) (Star (is_word db)))))))))"

section \<open>Declarations and the scan of one file\<close>

type_synonym path = "ustr list"

text \<open>The dataclass \<open>Decl\<close>; its field \<open>file\<close> is \<open>file_path\<close> here.\<close>

record Decl =
  kind :: ustr
  name :: ustr
  file_path :: path
  line :: nat

text \<open>
  The loop of \<open>scan_file\<close> over \<open>enumerate(text.splitlines(), start=1)\<close>, with the list
  \<open>decls\<close> it appends to. In \<open>PUBLIC_DECL_RE\<close> both groups take part in every match
  (lemma \<open>re_match_groups\<close>), so \<open>m.group(1)\<close> and \<open>m.group(2)\<close> are strings; the
  last case of the model is never reached.
\<close>

fun scan_lines :: "unicode \<Rightarrow> path \<Rightarrow> nat \<Rightarrow> ustr list \<Rightarrow> Decl list \<Rightarrow> Decl list" where
  "scan_lines db p idx [] decls = decls"
| "scan_lines db p idx (l # ls) decls =
     (case re_match (PUBLIC_DECL_RE db) l of
        None \<Rightarrow> scan_lines db p (Suc idx) ls decls
      | Some m \<Rightarrow>
          (case (m 1, m 2) of
             (Some k, Some n) \<Rightarrow>
               scan_lines db p (Suc idx) ls
                 (decls @ [\<lparr>kind = k, name = n, file_path = p, line = idx\<rparr>])
           | _ \<Rightarrow> scan_lines db p (Suc idx) ls decls))"

text \<open>
  \<open>str.splitlines\<close>: a line ends at U+000A..U+000D, U+001C..U+001E, U+0085, U+2028 or
  U+2029; a carriage return followed by a line feed is one boundary; the boundaries are
  dropped, and there is no empty last line after a final boundary. \<open>cur\<close> is the line
  being read.
\<close>

definition is_linebreak :: "nat \<Rightarrow> bool" where
  "is_linebreak c \<longleftrightarrow>
     (10 \<le> c \<and> c \<le> 13) \<or> (28 \<le> c \<and> c \<le> 30) \<or> c = 133 \<or> c = 8232 \<or> c = 8233"

fun splitlines_from :: "ustr \<Rightarrow> ustr \<Rightarrow> ustr list" where
  "splitlines_from cur [] = (if cur = [] then [] else [cur])"
| "splitlines_from cur [c] = (if is_linebreak c then [cur] else [cur @ [c]])"
| "splitlines_from cur (c # d # cs) =
     (if c = 13 \<and> d = 10 then cur # splitlines_from [] cs
      else if is_linebreak c then cur # splitlines_from [] (d # cs)
      else splitlines_from (cur @ [c]) (d # cs))"

definition splitlines :: "ustr \<Rightarrow> ustr list" where
  "splitlines text = splitlines_from [] text"

text \<open>The second half of \<open>scan_file\<close>: the loop, run on the text that was read.\<close>

definition scan_text :: "unicode \<Rightarrow> path \<Rightarrow> ustr \<Rightarrow> Decl list" where
  "scan_text db p text = scan_lines db p 1 (splitlines text) []"

section \<open>The file system\<close>

text \<open>
  The exceptions that the script can meet. \<open>OSError\<close> stands for every failure of the
  file system (permissions, a file that disappeared, a directory in place of a file).
\<close>

datatype exn = UnicodeDecodeError | OSError | ValueError

text \<open>
  What the script asks of the file system, each call with its outcome:
  \<^item> \<open>path_exists\<close>, \<open>is_dir\<close>: \<open>Path.exists\<close>, \<open>Path.is_dir\<close>;
  \<^item> \<open>iterdir\<close>: the names of the entries of a directory, or the exception raised;
  \<^item> \<open>rglob_swift\<close>: the matches of \<open>rglob("*.swift")\<close> below a directory, each as
    its parts relative to that directory, in the order of the traversal;
  \<^item> \<open>read_text\<close>: \<open>read_text(encoding="utf-8")\<close>, the text or the exception raised;
  \<^item> \<open>read_text_replace\<close>: \<open>read_text(encoding="utf-8", errors="replace")\<close>; this
    decoder never raises \<open>UnicodeDecodeError\<close>, so the outcome is the text or \<open>None\<close>
    for an \<open>OSError\<close>.
  A path is the list of its parts (\<open>Path.parts\<close>).
\<close>

record filesystem =
  path_exists :: "path \<Rightarrow> bool"
  is_dir :: "path \<Rightarrow> bool"
  iterdir :: "path \<Rightarrow> exn + ustr list"
  rglob_swift :: "path \<Rightarrow> path list"
  read_text :: "path \<Rightarrow> exn + ustr"
  read_text_replace :: "path \<Rightarrow> ustr option"

text \<open>\<open>iter_swift_files\<close>: the matches without those that have an excluded part.\<close>

definition excluded :: "unicode \<Rightarrow> path \<Rightarrow> bool" where
  "excluded db p \<longleftrightarrow>
     (let parts = str_lower db ` set p
      in lit ''.build'' \<in> parts \<or> lit ''.swiftpm'' \<in> parts)"

definition iter_swift_files :: "unicode \<Rightarrow> filesystem \<Rightarrow> path \<Rightarrow> path list" where
  "iter_swift_files db fs sources_root =
     filter (\<lambda>p. \<not> excluded db p) (map (\<lambda>rel. sources_root @ rel) (rglob_swift fs sources_root))"

text \<open>
  \<open>scan_file\<close>: the read with its fallback, then the loop. Only \<open>UnicodeDecodeError\<close> is
  caught; the second read is outside the \<open>try\<close>.
\<close>

definition scan_file :: "unicode \<Rightarrow> filesystem \<Rightarrow> path \<Rightarrow> exn + Decl list" where
  "scan_file db fs p =
     (case read_text fs p of
        Inr text \<Rightarrow> Inr (scan_text db p text)
      | Inl UnicodeDecodeError \<Rightarrow>
          (case read_text_replace fs p of
             Some text \<Rightarrow> Inr (scan_text db p text)
           | None \<Rightarrow> Inl OSError)
      | Inl e \<Rightarrow> Inl e)"

section \<open>The report\<close>

text \<open>The first loop of the body of \<open>main\<close>: \<open>decls.extend(scan_file(swift_file))\<close>.\<close>

fun collect :: "unicode \<Rightarrow> filesystem \<Rightarrow> path list \<Rightarrow> Decl list \<Rightarrow> exn + Decl list" where
  "collect db fs [] decls = Inr decls"
| "collect db fs (swift_file # rest) decls =
     (case scan_file db fs swift_file of
        Inl e \<Rightarrow> Inl e
      | Inr ds \<Rightarrow> collect db fs rest (decls @ ds))"

text \<open>The second loop: de-duplication by \<open>(kind, name)\<close> with the set \<open>seen\<close>.\<close>

definition key :: "Decl \<Rightarrow> ustr \<times> ustr" where
  "key d = (kind d, name d)"

fun dedupe :: "Decl list \<Rightarrow> (ustr \<times> ustr) set \<Rightarrow> Decl list \<Rightarrow> Decl list" where
  "dedupe [] seen unique = unique"
| "dedupe (d # ds) seen unique =
     (if key d \<in> seen then dedupe ds seen unique
      else dedupe ds (insert (key d) seen) (unique @ [d]))"

text \<open>
  \<open>unique.sort(key=lambda d: (d.kind, d.name))\<close>: a stable sort; tuples and strings
  compare lexicographically, strings by code point.
\<close>

definition sort_unique :: "Decl list \<Rightarrow> Decl list" where
  "sort_unique unique = sort_key key unique"

text \<open>The lines that the script prints, one constructor for each \<open>print\<close> of \<open>main\<close>.\<close>

datatype out_line =
    Title
  | Blank
  | RootLine path
  | SourcesLine path
  | NoteLine
  | Heading ustr
  | FilesScanned nat
  | PublicDecls nat
  | Entry ustr ustr path nat
  | More nat

text \<open>\<open>Path.relative_to\<close> raises \<open>ValueError\<close> unless the path lies under the other one.\<close>

definition relative_to :: "path \<Rightarrow> path \<Rightarrow> path option" where
  "relative_to p other = (if prefix other p then Some (drop (length other) p) else None)"

text \<open>
  The loop \<open>for d in unique[:60]\<close>, given the lines printed so far; it returns the
  lines printed and the exception that ended it, if any.
\<close>

fun print_entries :: "path \<Rightarrow> Decl list \<Rightarrow> out_line list \<Rightarrow> out_line list \<times> exn option" where
  "print_entries root [] out = (out, None)"
| "print_entries root (d # ds) out =
     (case relative_to (file_path d) root of
        None \<Rightarrow> (out, Some ValueError)
      | Some rel \<Rightarrow> print_entries root ds (out @ [Entry (kind d) (name d) rel (line d)]))"

text \<open>The listing of one module, from \<open>if not unique: continue\<close> to the final \<open>print()\<close>.\<close>

definition print_listing :: "path \<Rightarrow> Decl list \<Rightarrow> out_line list \<Rightarrow> out_line list \<times> exn option" where
  "print_listing root unique out =
     (if unique = [] then (out, None)
      else
        (case print_entries root (take 60 unique) out of
           (out', Some e) \<Rightarrow> (out', Some e)
         | (out', None) \<Rightarrow>
             (if length unique > 60 then (out' @ [More (length unique - 60), Blank], None)
              else (out' @ [Blank], None))))"

text \<open>\<open>Path.name\<close>: the last part, the empty string for a path without parts.\<close>

definition path_name :: "path \<Rightarrow> ustr" where
  "path_name p = (if p = [] then [] else last p)"

text \<open>The body of \<open>for module_dir in modules\<close>.\<close>

definition report_module ::
  "unicode \<Rightarrow> filesystem \<Rightarrow> path \<Rightarrow> path \<Rightarrow> out_line list \<Rightarrow> out_line list \<times> exn option" where
  "report_module db fs root module_dir out =
     (case collect db fs (iter_swift_files db fs module_dir) [] of
        Inl e \<Rightarrow> (out, Some e)
      | Inr decls \<Rightarrow>
          (let unique = sort_unique (dedupe decls {} [])
           in print_listing root unique
                (out @ [Heading (path_name module_dir), Blank,
                        FilesScanned (length (iter_swift_files db fs module_dir)),
                        PublicDecls (length unique), Blank])))"

text \<open>
  How the process ends: \<open>main\<close> returns 0, \<open>SystemExit\<close> is raised with a message, or
  an exception is not caught. The exit status is 0 in the first case and 1 otherwise.
\<close>

datatype outcome = Returned nat | SystemExit ustr | Uncaught exn


fun report_modules ::
  "unicode \<Rightarrow> filesystem \<Rightarrow> path \<Rightarrow> path list \<Rightarrow> out_line list \<Rightarrow> out_line list \<times> outcome" where
  "report_modules db fs root [] out = (out, Returned 0)"
| "report_modules db fs root (module_dir # modules) out =
     (case report_module db fs root module_dir out of
        (out', Some e) \<Rightarrow> (out', Uncaught e)
      | (out', None) \<Rightarrow> report_modules db fs root modules out')"

text \<open>\<open>str\<close> of a path: the parts joined by a slash, after the anchor if there is one.\<close>

fun join_parts :: "path \<Rightarrow> ustr" where
  "join_parts [] = []"
| "join_parts [a] = a"
| "join_parts (a # b # ps) = a @ lit ''/'' @ join_parts (b # ps)"

definition path_str :: "path \<Rightarrow> ustr" where
  "path_str p =
     (case p of
        [] \<Rightarrow> lit ''.''
      | a # ps \<Rightarrow> if take 1 a = lit ''/'' then a @ join_parts ps else join_parts p)"

definition sources_root_of :: "path \<Rightarrow> path" where
  "sources_root_of root = root @ [lit ''libs'', lit ''hive'', lit ''Sources'']"

text \<open>
  \<open>main\<close>, from the resolved root on: the lines printed on standard output and how the
  process ends.
\<close>

definition main :: "unicode \<Rightarrow> filesystem \<Rightarrow> path \<Rightarrow> out_line list \<times> outcome" where
  "main db fs root =
     (let sources_root = sources_root_of root
      in if \<not> path_exists fs sources_root
         then ([], SystemExit (lit ''Expected Swift sources at: '' @ path_str sources_root))
         else
           (case iterdir fs sources_root of
              Inl e \<Rightarrow> ([], Uncaught e)
            | Inr names \<Rightarrow>
                (let modules =
                       sort_key path_name
                         (filter (is_dir fs) (map (\<lambda>n. sources_root @ [n]) names))
                 in report_modules db fs root modules
                      [Title, Blank, RootLine root, SourcesLine sources_root, NoteLine, Blank])))"

text \<open>The text of each printed line.\<close>

fun str_of_nat :: "nat \<Rightarrow> ustr" where
  "str_of_nat n = (if n < 10 then [48 + n] else str_of_nat (n div 10) @ [48 + n mod 10])"

declare str_of_nat.simps [simp del]

fun render :: "out_line \<Rightarrow> ustr" where
  "render Title = lit ''# Hive Public API (Heuristic Map)''"
| "render Blank = []"
| "render (RootLine root) = lit ''- Root: '' @ [96] @ path_str root @ [96]"
| "render (SourcesLine p) = lit ''- Sources: '' @ [96] @ path_str p @ [96]"
| "render NoteLine =
     lit ''- Note: This is regex-based; it may miss symbols declared across multiple lines.''"
| "render (Heading n) = lit ''## '' @ n"
| "render (FilesScanned n) = lit ''- Files scanned: '' @ str_of_nat n"
| "render (PublicDecls n) = lit ''- Public decls (unique): '' @ str_of_nat n"
| "render (Entry k n rel l) =
     lit ''- '' @ [96] @ k @ lit '' '' @ n @ [96] @ lit '' ('' @ path_str rel @ lit '':'' @
     str_of_nat l @ lit '')''"
| "render (More n) = lit ''- ... ('' @ str_of_nat n @ lit '' more)''"

section \<open>The words of the specification\<close>

text \<open>The nine declaration-kind keywords.\<close>

definition KINDS :: "ustr list" where
  "KINDS = map lit [''struct'', ''enum'', ''protocol'', ''class'', ''actor'', ''typealias'',
                    ''func'', ''var'', ''let'']"

text \<open>Whitespace: one or more characters of the class \<open>\s\<close>.\<close>

definition whitespace :: "ustr \<Rightarrow> bool" where
  "whitespace ws \<longleftrightarrow> ws \<noteq> [] \<and> list_all is_space ws"

text \<open>
  The shape of a declaration line: the keyword \<open>public\<close>, whitespace, optionally \<open>final\<close>
  and whitespace, a kind keyword, whitespace, an identifier (a letter of \<open>A-Z\<close>, \<open>a-z\<close>
  or the underscore, then word characters), then anything.
\<close>

definition decl_shape :: "unicode \<Rightarrow> ustr \<Rightarrow> bool" where
  "decl_shape db l \<longleftrightarrow>
     (\<exists>ws1 q k ws2 c cs trail.
        l = lit ''public'' @ ws1 @ q @ k @ ws2 @ (c # cs) @ trail \<and>
        whitespace ws1 \<and>
        (q = [] \<or> (\<exists>ws. q = lit ''final'' @ ws \<and> whitespace ws)) \<and>
        k \<in> set KINDS \<and>
        whitespace ws2 \<and>
        is_id_start c \<and> list_all (is_word db) cs)"

text \<open>The same shape after any leading whitespace.\<close>

definition indented_decl_shape :: "unicode \<Rightarrow> ustr \<Rightarrow> bool" where
  "indented_decl_shape db l \<longleftrightarrow>
     (\<exists>lead rest. l = lead @ rest \<and> list_all is_space lead \<and> decl_shape db rest)"

text \<open>An identifier whose first character is of \<open>[A-Za-z_]\<close> and whose others are of \<open>\w\<close>.\<close>

definition word_ident :: "unicode \<Rightarrow> ustr \<Rightarrow> bool" where
  "word_ident db n = (case n of [] \<Rightarrow> False | c # cs \<Rightarrow> is_id_start c \<and> list_all (is_word db) cs)"

text \<open>An identifier of the shape \<open>[A-Za-z_][A-Za-z0-9_]*\<close>.\<close>

definition ascii_ident :: "ustr \<Rightarrow> bool" where
  "ascii_ident n =
     (case n of
        [] \<Rightarrow> False
      | c # cs \<Rightarrow> is_id_start c \<and> list_all (\<lambda>x. is_id_start x \<or> (48 \<le> x \<and> x \<le> 57)) cs)"

text \<open>A line matches when \<open>PUBLIC_DECL_RE.match(line)\<close> is not \<open>None\<close>.\<close>

definition matches :: "unicode \<Rightarrow> ustr \<Rightarrow> bool" where
  "matches db l \<longleftrightarrow> re_match (PUBLIC_DECL_RE db) l \<noteq> None"

text \<open>The line of the listing for a declaration, its path taken relative to the root.\<close>

definition entry_line :: "path \<Rightarrow> Decl \<Rightarrow> out_line" where
  "entry_line root d = Entry (kind d) (name d) (drop (length root) (file_path d)) (line d)"

text \<open>The two kinds of lines that the claims about the listing count.\<close>

fun is_entry :: "out_line \<Rightarrow> bool" where
  "is_entry (Entry k n rel l) = True"
| "is_entry other = False"

fun is_more :: "out_line \<Rightarrow> bool" where
  "is_more (More n) = True"
| "is_more other = False"


section \<open>Sample inputs\<close>

text \<open>
  The two tables of the Unicode database on the code points below 256 (Latin-1), where
  \<open>str.lower\<close> works character by character.
\<close>

definition latin1_isalnum :: "nat \<Rightarrow> bool" where
  "latin1_isalnum c \<longleftrightarrow>
     (48 \<le> c \<and> c \<le> 57) \<or> (65 \<le> c \<and> c \<le> 90) \<or> (97 \<le> c \<and> c \<le> 122) \<or>
     c = 170 \<or> c = 178 \<or> c = 179 \<or> c = 181 \<or> c = 185 \<or> c = 186 \<or> (188 \<le> c \<and> c \<le> 190) \<or>
     (192 \<le> c \<and> c \<le> 214) \<or> (216 \<le> c \<and> c \<le> 246) \<or> (248 \<le> c \<and> c \<le> 255)"

definition latin1_lower :: "ustr \<Rightarrow> ustr" where
  "latin1_lower s =
     map (\<lambda>c. if (65 \<le> c \<and> c \<le> 90) \<or> (192 \<le> c \<and> c \<le> 214) \<or> (216 \<le> c \<and> c \<le> 222)
               then c + 32 else c) s"

definition latin1 :: unicode where
  "latin1 = \<lparr>str_isalnum = latin1_isalnum, str_lower = latin1_lower\<rparr>"

text \<open>
  A checkout at \<open>/repo\<close> with three modules and a file that is not a directory. \<open>ModA\<close>
  has one source file and one file under a build directory; \<open>ModB\<close> has two source files
  with the same declaration, the first of which is not valid UTF-8; \<open>ModC\<close> has only a file
  under a package-manager directory.
\<close>

definition demo_root :: path where
  "demo_root = [lit ''/'', lit ''repo'']"

definition demo_src :: path where
  "demo_src = [lit ''/'', lit ''repo'', lit ''libs'', lit ''hive'', lit ''Sources'']"

definition demo_fs :: filesystem where
  "demo_fs = \<lparr>
     path_exists = (\<lambda>p. p = demo_src),
     is_dir = (\<lambda>p. p \<noteq> demo_src @ [lit ''README.md'']),
     iterdir = (\<lambda>p. if p = demo_src
                     then Inr [lit ''ModB'', lit ''README.md'', lit ''ModC'', lit ''ModA'']
                     else Inl OSError),
     rglob_swift = (\<lambda>p.
        if p = demo_src @ [lit ''ModA''] then [[lit ''A.swift''], [lit ''.Build'', lit ''x.swift'']]
        else if p = demo_src @ [lit ''ModB''] then [[lit ''Sub'', lit ''B.swift''], [lit ''C.swift'']]
        else if p = demo_src @ [lit ''ModC''] then [[lit ''.swiftpm'', lit ''y.swift'']]
        else []),
     read_text = (\<lambda>p.
        if p = demo_src @ [lit ''ModA'', lit ''A.swift'']
        then Inr (lit ''import X'' @ [10] @ lit ''public struct Widget {'' @ [10])
        else if p = demo_src @ [lit ''ModA'', lit ''.Build'', lit ''x.swift'']
        then Inr (lit ''public struct Hidden'')
        else if p = demo_src @ [lit ''ModB'', lit ''Sub'', lit ''B.swift'']
        then Inl UnicodeDecodeError
        else if p = demo_src @ [lit ''ModB'', lit ''C.swift'']
        then Inr (lit ''public func run() {'')
        else Inl OSError),
     read_text_replace = (\<lambda>p.
        if p = demo_src @ [lit ''ModB'', lit ''Sub'', lit ''B.swift'']
        then Some ([65533, 10] @ lit ''public func run() {'')
        else None)\<rparr>"

text \<open>The same checkout when \<open>ModA/A.swift\<close> cannot be read.\<close>

definition locked_fs :: filesystem where
  "locked_fs =
     demo_fs\<lparr>read_text := (read_text demo_fs)(demo_src @ [lit ''ModA'', lit ''A.swift''] := Inl OSError)\<rparr>"

text \<open>\<open>n\<close> declarations \<open>func f0\<close>, \<open>func f1\<close>, ... of one file under \<open>/repo\<close>.\<close>

definition many_decls :: "nat \<Rightarrow> Decl list" where
  "many_decls n =
     map (\<lambda>i. \<lparr>kind = lit ''func'', name = lit ''f'' @ str_of_nat i,
               file_path = demo_root @ [lit ''F.swift''], line = Suc i\<rparr>) [0..<n]"

section \<open>The matcher on \<open>PUBLIC_DECL_RE\<close>\<close>

text \<open>
  The states that each construct of the pattern can reach, as a set; the ways in which
  the whole pattern matches a line follow from them.
\<close>

lemma in_star_rests: "r \<in> set (star_rests p s) \<longleftrightarrow> (\<exists>w. s = w @ r \<and> list_all p w)"
proof (induction s)
  case Nil
  show ?case by auto
next
  case (Cons c cs)
  show ?case
  proof (cases "p c")
    case True
    then show ?thesis using Cons
      by (auto simp: Cons_eq_append_conv)
  next
    case False
    then show ?thesis
      by (auto simp: Cons_eq_append_conv)
  qed
qed

lemma in_plus_rests:
  "r \<in> set (plus_rests p s) \<longleftrightarrow> (\<exists>w. s = w @ r \<and> w \<noteq> [] \<and> list_all p w)"
  by (cases s) (auto simp: in_star_rests Cons_eq_append_conv)

lemma in_run_Lit: "(r, g') \<in> set (run s0 (Lit w) (s, g)) \<longleftrightarrow> g' = g \<and> s = w @ r"
  by (auto simp: prefix_def)

lemma in_run_Cls: "(r, g') \<in> set (run s0 (Cls p) (s, g)) \<longleftrightarrow> g' = g \<and> (\<exists>c. s = c # r \<and> p c)"
  by (auto split: list.splits)

lemma in_run_Plus:
  "(r, g') \<in> set (run s0 (Plus p) (s, g)) \<longleftrightarrow> g' = g \<and> (\<exists>w. s = w @ r \<and> w \<noteq> [] \<and> list_all p w)"
  by (auto simp: in_plus_rests)

lemma in_run_Star:
  "(r, g') \<in> set (run s0 (Star p) (s, g)) \<longleftrightarrow> g' = g \<and> (\<exists>w. s = w @ r \<and> list_all p w)"
  by (auto simp: in_star_rests)

lemma in_run_Seq:
  "st'' \<in> set (run s0 (Seq a b) st) \<longleftrightarrow>
     (\<exists>r' g'. (r', g') \<in> set (run s0 a st) \<and> st'' \<in> set (run s0 b (r', g')))"
  by auto

lemma in_run_Alt:
  "st' \<in> set (run s0 (Alt a b) st) \<longleftrightarrow> st' \<in> set (run s0 a st) \<or> st' \<in> set (run s0 b st)"
  by auto

lemma in_run_Opt:
  "st' \<in> set (run s0 (Opt a) st) \<longleftrightarrow> st' \<in> set (run s0 a st) \<or> st' = st"
  by auto

lemma in_run_Grp:
  "(r, g') \<in> set (run s0 (Grp n a) (s, g)) \<longleftrightarrow>
     (\<exists>g''. (r, g'') \<in> set (run s0 a (s, g)) \<and> g' = g''(n \<mapsto> take (length s - length r) s))"
  by force

lemma in_run_Grp_Lit:
  "(r, g') \<in> set (run s0 (Grp n (Lit w)) (s, g)) \<longleftrightarrow> s = w @ r \<and> g' = g(n \<mapsto> w)"
  unfolding in_run_Grp in_run_Lit by auto

lemma in_run_Grp_Alt:
  "(r, g') \<in> set (run s0 (Grp n (Alt a b)) (s, g)) \<longleftrightarrow>
     (r, g') \<in> set (run s0 (Grp n a) (s, g)) \<or> (r, g') \<in> set (run s0 (Grp n b) (s, g))"
  by auto

lemma in_run_kind:
  "(r, g') \<in> set (run s0 (Grp n KIND_RE) (s, g)) \<longleftrightarrow>
     (\<exists>k \<in> set KINDS. s = k @ r \<and> g' = g(n \<mapsto> k))"
  unfolding KIND_RE_def KINDS_def in_run_Grp_Alt in_run_Grp_Lit
  by (simp del: run.simps)

lemma in_run_ident:
  "(r, g') \<in> set (run s0 (Grp n (Seq (Cls is_id_start) (Star p))) (s, g)) \<longleftrightarrow>
     (\<exists>c cs. s = (c # cs) @ r \<and> is_id_start c \<and> list_all p cs \<and> g' = g(n \<mapsto> c # cs))"
  unfolding in_run_Grp in_run_Seq
  by (auto simp: in_run_Cls in_run_Star simp del: run.simps)

lemma in_run_final:
  "(r, g') \<in> set (run s0 (Opt (Seq (Lit (lit ''final'')) (Plus is_space))) (s, g)) \<longleftrightarrow>
     g' = g \<and> (\<exists>q. s = q @ r \<and> (q = [] \<or> (\<exists>ws. q = lit ''final'' @ ws \<and> whitespace ws)))"
  unfolding in_run_Opt in_run_Seq
  by (auto simp: in_run_Lit in_run_Plus whitespace_def simp del: run.simps)

lemma in_run_spaces:
  "(r, g') \<in> set (run s0 (Plus is_space) (s, g)) \<longleftrightarrow> g' = g \<and> (\<exists>w. s = w @ r \<and> whitespace w)"
  unfolding in_run_Plus whitespace_def ..

lemma in_run_Bol: "(r, g') \<in> set (run s0 Bol (s, g)) \<longleftrightarrow> length s = length s0 \<and> r = s \<and> g' = g"
  by auto

lemma in_run_PUBLIC_DECL_RE:
  "(r, g') \<in> set (run l (PUBLIC_DECL_RE db) (l, g)) \<longleftrightarrow>
     (\<exists>ws1 q k ws2 c cs.
        l = lit ''public'' @ ws1 @ q @ k @ ws2 @ (c # cs) @ r \<and>
        whitespace ws1 \<and>
        (q = [] \<or> (\<exists>ws. q = lit ''final'' @ ws \<and> whitespace ws)) \<and>
        k \<in> set KINDS \<and>
        whitespace ws2 \<and>
        is_id_start c \<and> list_all (is_word db) cs \<and>
        g' = g(1 \<mapsto> k, 2 \<mapsto> c # cs))"
  (is "?L \<longleftrightarrow> ?R")
proof
  assume ?L
  then obtain r2 r3 r4 r5 r6 g5 where
    1: "l = lit ''public'' @ r2" and
    2: "\<exists>w. r2 = w @ r3 \<and> whitespace w" and
    3: "\<exists>q. r3 = q @ r4 \<and> (q = [] \<or> (\<exists>ws. q = lit ''final'' @ ws \<and> whitespace ws))" and
    4: "\<exists>k\<in>set KINDS. r4 = k @ r5 \<and> g5 = g(1 \<mapsto> k)" and
    5: "\<exists>w. r5 = w @ r6 \<and> whitespace w" and
    6: "\<exists>c cs. r6 = (c # cs) @ r \<and> is_id_start c \<and> list_all (is_word db) cs \<and>
          g' = g5(2 \<mapsto> c # cs)"
    unfolding PUBLIC_DECL_RE_def in_run_Seq in_run_Bol in_run_Lit in_run_spaces in_run_final
      in_run_kind in_run_ident
    by (elim exE conjE) (hypsubst, blast)
  from 2 obtain ws1 where a: "r2 = ws1 @ r3" "whitespace ws1" by blast
  from 3 obtain q where b: "r3 = q @ r4" "q = [] \<or> (\<exists>ws. q = lit ''final'' @ ws \<and> whitespace ws)"
    by blast
  from 4 obtain k where c: "k \<in> set KINDS" "r4 = k @ r5" "g5 = g(1 \<mapsto> k)" by blast
  from 5 obtain ws2 where d: "r5 = ws2 @ r6" "whitespace ws2" by blast
  from 6 obtain c cs where e: "r6 = (c # cs) @ r" "is_id_start c" "list_all (is_word db) cs"
    "g' = g5(2 \<mapsto> c # cs)" by blast
  have "l = lit ''public'' @ ws1 @ q @ k @ ws2 @ (c # cs) @ r"
    unfolding 1 a(1) b(1) c(2) d(1) e(1) ..
  with a(2) b(2) c(1) d(2) e(2,3) e(4)[unfolded c(3)] show ?R by blast
next
  assume ?R
  then obtain ws1 q k ws2 c cs where
    l: "l = lit ''public'' @ ws1 @ q @ k @ ws2 @ (c # cs) @ r" and
    a: "whitespace ws1" and
    b: "q = [] \<or> (\<exists>ws. q = lit ''final'' @ ws \<and> whitespace ws)" and
    c: "k \<in> set KINDS" and
    d: "whitespace ws2" and
    e: "is_id_start c" "list_all (is_word db) cs" and
    g: "g' = g(1 \<mapsto> k, 2 \<mapsto> c # cs)"
    by blast
  let ?r6 = "(c # cs) @ r"
  let ?r5 = "ws2 @ ?r6"
  let ?r4 = "k @ ?r5"
  let ?r3 = "q @ ?r4"
  let ?r2 = "ws1 @ ?r3"
  have 6: "(r, g') \<in> set (run l (Grp 2 (Seq (Cls is_id_start) (Star (is_word db)))) (?r6, g(1 \<mapsto> k)))"
    unfolding in_run_ident using e g by blast
  have 5: "(?r6, g(1 \<mapsto> k)) \<in> set (run l (Plus is_space) (?r5, g(1 \<mapsto> k)))"
    unfolding in_run_spaces using d by blast
  have 4: "(?r5, g(1 \<mapsto> k)) \<in> set (run l (Grp 1 KIND_RE) (?r4, g))"
    unfolding in_run_kind using c by blast
  have 3: "(?r4, g) \<in> set (run l (Opt (Seq (Lit (lit ''final'')) (Plus is_space))) (?r3, g))"
    unfolding in_run_final using b by blast
  have 2: "(?r3, g) \<in> set (run l (Plus is_space) (?r2, g))"
    unfolding in_run_spaces using a by blast
  have 1: "(?r2, g) \<in> set (run l (Lit (lit ''public'')) (l, g))"
    unfolding in_run_Lit l by simp
  have 0: "(l, g) \<in> set (run l Bol (l, g))"
    by simp
  show ?L
    unfolding PUBLIC_DECL_RE_def in_run_Seq
    using 0 1 2 3 4 5 6 by blast
qed

lemma Nil_iff_no_member: "xs = [] \<longleftrightarrow> \<not> (\<exists>x. x \<in> set xs)"
  by (cases xs) auto

lemma re_match_None_iff: "re_match (PUBLIC_DECL_RE db) l = None \<longleftrightarrow> \<not> decl_shape db l"
proof -
  let ?X = "run l (PUBLIC_DECL_RE db) (l, Map.empty)"
  have "re_match (PUBLIC_DECL_RE db) l = None \<longleftrightarrow> ?X = []"
    by (simp add: re_match_def split: list.splits prod.splits del: run.simps)
  also have "\<dots> \<longleftrightarrow> \<not> (\<exists>st. st \<in> set ?X)"
    by (rule Nil_iff_no_member)
  also have "\<dots> \<longleftrightarrow> \<not> (\<exists>r g'. (r, g') \<in> set ?X)"
    by (simp del: run.simps)
  also have "\<dots> \<longleftrightarrow> \<not> decl_shape db l"
    unfolding in_run_PUBLIC_DECL_RE decl_shape_def by blast
  finally show ?thesis .
qed

lemma re_match_groups:
  assumes "re_match (PUBLIC_DECL_RE db) l = Some m"
  shows "\<exists>k c cs. m 1 = Some k \<and> k \<in> set KINDS \<and> m 2 = Some (c # cs) \<and>
           is_id_start c \<and> list_all (is_word db) cs"
proof -
  from assms obtain r where "(r, m) \<in> set (run l (PUBLIC_DECL_RE db) (l, Map.empty))"
    by (auto simp: re_match_def split: list.splits prod.splits simp del: run.simps)
  then show ?thesis
    unfolding in_run_PUBLIC_DECL_RE by auto
qed

section \<open>The scan of the lines of a file\<close>

lemma matches_iff_shape: "matches db l \<longleftrightarrow> decl_shape db l"
  by (simp add: matches_def re_match_None_iff)

lemma scan_lines_step:
  "scan_lines db p idx (l # ls) decls =
     scan_lines db p (Suc idx) ls (decls @ scan_lines db p idx [l] [])"
  by (simp split: option.splits)

lemma scan_lines_acc: "scan_lines db p idx ls decls = decls @ scan_lines db p idx ls []"
proof (induction ls arbitrary: idx decls)
  case Nil
  show ?case by simp
next
  case (Cons l ls)
  have "scan_lines db p idx (l # ls) decls =
          (decls @ scan_lines db p idx [l] []) @ scan_lines db p (Suc idx) ls []"
    unfolding scan_lines_step [of db p idx l ls decls]
    by (rule Cons.IH)
  moreover have "scan_lines db p idx (l # ls) [] =
          scan_lines db p idx [l] [] @ scan_lines db p (Suc idx) ls []"
    unfolding scan_lines_step [of db p idx l ls "[]"]
    using Cons.IH [of "Suc idx" "[] @ scan_lines db p idx [l] []"] by simp
  ultimately show ?case by simp
qed

lemma scan_lines_Cons:
  "scan_lines db p idx (l # ls) [] = scan_lines db p idx [l] [] @ scan_lines db p (Suc idx) ls []"
  unfolding scan_lines_step [of db p idx l ls "[]"]
  using scan_lines_acc [of db p "Suc idx" ls "[] @ scan_lines db p idx [l] []"] by simp

lemma scan_lines_single_None:
  "re_match (PUBLIC_DECL_RE db) l = None \<Longrightarrow> scan_lines db p idx [l] [] = []"
  by simp

lemma scan_lines_single_Some:
  assumes "re_match (PUBLIC_DECL_RE db) l = Some m"
  shows "\<exists>k n. m 1 = Some k \<and> m 2 = Some n \<and> k \<in> set KINDS \<and> word_ident db n \<and>
           scan_lines db p idx [l] [] = [\<lparr>kind = k, name = n, file_path = p, line = idx\<rparr>]"
proof -
  from re_match_groups [OF assms] obtain k c cs where
    g: "m 1 = Some k" "k \<in> set KINDS" "m 2 = Some (c # cs)" "is_id_start c"
       "list_all (is_word db) cs"
    by blast
  have "scan_lines db p idx [l] [] = [\<lparr>kind = k, name = c # cs, file_path = p, line = idx\<rparr>]"
    using assms g(1,3) by simp
  moreover have "word_ident db (c # cs)"
    using g(4,5) by (simp add: word_ident_def)
  ultimately show ?thesis using g(1,2,3) by blast
qed

lemma scan_lines_single_cases:
  obtains "\<not> matches db l" "scan_lines db p idx [l] [] = []"
  | k n where "matches db l" "k \<in> set KINDS" "word_ident db n"
      "scan_lines db p idx [l] [] = [\<lparr>kind = k, name = n, file_path = p, line = idx\<rparr>]"
proof (cases "re_match (PUBLIC_DECL_RE db) l")
  case None
  then show ?thesis
    using that(1) scan_lines_single_None [of db l p idx] by (simp add: matches_def)
next
  case (Some m)
  then have "matches db l" by (simp add: matches_def)
  with scan_lines_single_Some [OF Some, of p idx] that(2) show ?thesis by blast
qed

lemma scan_lines_props:
  "d \<in> set (scan_lines db p idx ls []) \<Longrightarrow>
     kind d \<in> set KINDS \<and> word_ident db (name d) \<and> file_path d = p \<and> idx \<le> line d
     \<and> line d < idx + length ls \<and> matches db (ls ! (line d - idx))"
proof (induction ls arbitrary: idx)
  case Nil
  then show ?case by simp
next
  case (Cons l ls)
  from Cons.prems consider "d \<in> set (scan_lines db p idx [l] [])"
    | "d \<in> set (scan_lines db p (Suc idx) ls [])"
    unfolding scan_lines_Cons [of db p idx l ls] by auto
  then show ?case
  proof cases
    case 1
    then show ?thesis
      by (rule_tac scan_lines_single_cases [of db l p idx]) auto
  next
    case 2
    from Cons.IH [OF 2] show ?thesis
      by (auto simp: Suc_diff_le)
  qed
qed

lemma map_line_scan_lines:
  "map line (scan_lines db p idx ls []) =
     map (\<lambda>i. idx + i) (filter (\<lambda>i. matches db (ls ! i)) [0..<length ls])"
proof (induction ls arbitrary: idx)
  case Nil
  show ?case by simp
next
  case (Cons l ls)
  have one: "map line (scan_lines db p idx [l] []) = (if matches db l then [idx] else [])"
    by (rule scan_lines_single_cases [of db l p idx]) auto
  have upt: "[0..<length (l # ls)] = 0 # map Suc [0..<length ls]"
    by (simp add: upt_conv_Cons map_Suc_upt del: upt_Suc)
  have "map (\<lambda>i. idx + i) (filter (\<lambda>i. matches db ((l # ls) ! i)) [0..<length (l # ls)]) =
          (if matches db l then [idx] else []) @
          map (\<lambda>i. Suc idx + i) (filter (\<lambda>i. matches db (ls ! i)) [0..<length ls])"
    unfolding upt by (simp add: filter_map comp_def)
  then show ?case
    unfolding scan_lines_Cons [of db p idx l ls] using one Cons.IH [of "Suc idx"] by simp
qed

lemmas match_eval = lit_def re_match_def PUBLIC_DECL_RE_def KIND_RE_def is_space_def
  is_id_start_def is_word_def latin1_def latin1_isalnum_def

section \<open>Claims about the Declaration Extractor\<close>

text \<open>
  C1 (as amended). A line yields a declaration record exactly when it begins, at its first
  character, with \<open>public\<close>, then whitespace, then optionally \<open>final\<close> and whitespace,
  then one of the nine kind keywords, then whitespace, then an identifier; what follows the
  identifier does not matter. The record carries the path and the number of the line.
  Leading whitespace before \<open>public\<close> is not skipped.
\<close>

theorem decl_emitted_iff_shape:
  "(scan_lines db p idx [l] [] \<noteq> [] \<longleftrightarrow> decl_shape db l) \<and>
   (decl_shape db l \<longleftrightarrow>
      (\<exists>k n. scan_lines db p idx [l] [] = [\<lparr>kind = k, name = n, file_path = p, line = idx\<rparr>]))"
proof (rule scan_lines_single_cases [of db l p idx])
  assume "\<not> matches db l" "scan_lines db p idx [l] [] = []"
  then show ?thesis by (simp add: matches_iff_shape)
next
  fix k n
  assume "matches db l"
    "scan_lines db p idx [l] [] = [\<lparr>kind = k, name = n, file_path = p, line = idx\<rparr>]"
  then show ?thesis by (simp add: matches_iff_shape)
qed

text \<open>C1, at a line of the shape and at a line that lacks the whitespace after the kind.\<close>

theorem decl_emitted_iff_shape_witness:
  "scan_lines latin1 [lit ''A.swift''] 3 [lit ''public struct Widget {''] [] =
     [\<lparr>kind = lit ''struct'', name = lit ''Widget'', file_path = [lit ''A.swift''], line = 3\<rparr>] \<and>
   decl_shape latin1 (lit ''public struct Widget {'') \<and>
   scan_lines latin1 [lit ''A.swift''] 4 [lit ''public structWidget {''] [] = [] \<and>
   \<not> decl_shape latin1 (lit ''public structWidget {'')"
proof -
  have a: "scan_lines latin1 [lit ''A.swift''] 3 [lit ''public struct Widget {''] [] =
     [\<lparr>kind = lit ''struct'', name = lit ''Widget'', file_path = [lit ''A.swift''], line = 3\<rparr>]"
    by (simp add: match_eval)
  have b: "scan_lines latin1 [lit ''A.swift''] 4 [lit ''public structWidget {''] [] = []"
    by (simp add: match_eval)
  show ?thesis
    using a b decl_emitted_iff_shape [of latin1 "[lit ''A.swift'']" 3 "lit ''public struct Widget {''"]
      decl_emitted_iff_shape [of latin1 "[lit ''A.swift'']" 4 "lit ''public structWidget {''"]
    by simp
qed

text \<open>
  C1 as stated fails: an indented line of the shape is a declaration line after its
  leading whitespace, and yields no record.
\<close>

theorem indented_line_not_matched:
  "indented_decl_shape latin1 (lit ''  public struct Foo'') \<and>
   scan_lines latin1 [lit ''A.swift''] 1 [lit ''  public struct Foo''] [] = []"
proof
  have "matches latin1 (lit ''public struct Foo'')"
    by (simp add: matches_def match_eval)
  then have "decl_shape latin1 (lit ''public struct Foo'')"
    by (simp add: matches_iff_shape)
  moreover have "lit ''  public struct Foo'' = lit ''  '' @ lit ''public struct Foo''"
    by (simp add: lit_def)
  moreover have "list_all is_space (lit ''  '')"
    by (simp add: lit_def is_space_def)
  ultimately show "indented_decl_shape latin1 (lit ''  public struct Foo'')"
    unfolding indented_decl_shape_def by blast
next
  show "scan_lines latin1 [lit ''A.swift''] 1 [lit ''  public struct Foo''] [] = []"
    by (simp add: match_eval)
qed

text \<open>
  C6. The records of a text are, in order, one for each matching line and none for any
  other line; their line numbers are the 1-based positions of the matching lines among
  the lines of the text, hence strictly ascending; each record carries the path of the
  file; a text without a matching line yields no record.
\<close>

theorem scan_text_line_numbers:
  "map line (scan_text db p text) =
     map Suc (filter (\<lambda>i. matches db (splitlines text ! i)) [0..<length (splitlines text)]) \<and>
   sorted_wrt (<) (map line (scan_text db p text)) \<and>
   (\<forall>d \<in> set (scan_text db p text). file_path d = p) \<and>
   ((\<forall>l \<in> set (splitlines text). \<not> matches db l) \<longrightarrow> scan_text db p text = [])"
proof -
  let ?ls = "splitlines text"
  have eq: "map line (scan_text db p text) =
      map Suc (filter (\<lambda>i. matches db (?ls ! i)) [0..<length ?ls])"
    unfolding scan_text_def map_line_scan_lines by simp
  have "sorted_wrt (<) (filter (\<lambda>i. matches db (?ls ! i)) [0..<length ?ls])"
    by (rule sorted_wrt_filter) simp
  then have srt: "sorted_wrt (<) (map line (scan_text db p text))"
    unfolding eq by (simp add: sorted_wrt_map)
  have fl: "\<forall>d \<in> set (scan_text db p text). file_path d = p"
    unfolding scan_text_def using scan_lines_props [of _ db p 1 ?ls] by blast
  have "scan_text db p text = []" if "\<forall>l \<in> set ?ls. \<not> matches db l"
  proof -
    from that have "filter (\<lambda>i. matches db (?ls ! i)) [0..<length ?ls] = []"
      by (auto simp: filter_empty_conv)
    with eq show ?thesis by simp
  qed
  with eq srt fl show ?thesis by blast
qed

text \<open>C6, at a text of four lines with two declarations, and at a text without any.\<close>

theorem scan_text_line_numbers_witness:
  "scan_text latin1 [lit ''A.swift'']
     (lit ''import X'' @ [10] @ lit ''public struct A {'' @ [10, 10] @ lit ''public var b: Int'' @ [10]) =
     [\<lparr>kind = lit ''struct'', name = lit ''A'', file_path = [lit ''A.swift''], line = 2\<rparr>,
      \<lparr>kind = lit ''var'', name = lit ''b'', file_path = [lit ''A.swift''], line = 4\<rparr>] \<and>
   scan_text latin1 [lit ''A.swift''] (lit ''import X'' @ [10] @ lit ''  public var b: Int'') = []"
proof -
  let ?t = "lit ''import X'' @ [10] @ lit ''public struct A {'' @ [10, 10] @ lit ''public var b: Int'' @ [10]"
  let ?u = "lit ''import X'' @ [10] @ lit ''  public var b: Int''"
  have l: "splitlines ?t = [lit ''import X'', lit ''public struct A {'', [], lit ''public var b: Int'']"
    by (simp add: splitlines_def lit_def is_linebreak_def)
  have m: "splitlines ?u = [lit ''import X'', lit ''  public var b: Int'']"
    by (simp add: splitlines_def lit_def is_linebreak_def)
  have n: "\<forall>l \<in> set (splitlines ?u). \<not> matches latin1 l"
    unfolding m by (simp add: matches_def match_eval)
  have a: "scan_text latin1 [lit ''A.swift''] ?t =
     [\<lparr>kind = lit ''struct'', name = lit ''A'', file_path = [lit ''A.swift''], line = 2\<rparr>,
      \<lparr>kind = lit ''var'', name = lit ''b'', file_path = [lit ''A.swift''], line = 4\<rparr>]"
    unfolding scan_text_def l by (simp add: match_eval)
  show ?thesis
    using a n scan_text_line_numbers [of latin1 "[lit ''A.swift'']" ?u] by simp
qed

text \<open>
  C10 (as amended). Every record has one of the nine kind keywords as its kind and a name
  that starts with a character of \<open>[A-Za-z_]\<close> and continues with characters of the
  class \<open>\w\<close>, which holds the letters and digits of all of Unicode; the line it comes
  from has the shape of a declaration line, in which the only qualifier is \<open>final\<close>; and
  the line \<open>public static func run() {}\<close> yields no record.
\<close>

theorem emitted_kind_and_name:
  "(\<forall>d \<in> set (scan_text db p text).
      kind d \<in> set KINDS \<and> word_ident db (name d) \<and>
      decl_shape db (splitlines text ! (line d - 1))) \<and>
   scan_text db p (lit ''public static func run() {}'') = []"
proof
  show "\<forall>d \<in> set (scan_text db p text).
      kind d \<in> set KINDS \<and> word_ident db (name d) \<and>
      decl_shape db (splitlines text ! (line d - 1))"
    unfolding scan_text_def
    using scan_lines_props [of _ db p 1 "splitlines text"]
    by (auto simp: matches_iff_shape)
next
  have "splitlines (lit ''public static func run() {}'') = [lit ''public static func run() {}'']"
    by (simp add: splitlines_def lit_def is_linebreak_def)
  moreover have "re_match (PUBLIC_DECL_RE db) (lit ''public static func run() {}'') = None"
    by (simp add: lit_def re_match_def PUBLIC_DECL_RE_def KIND_RE_def is_space_def)
  ultimately show "scan_text db p (lit ''public static func run() {}'') = []"
    by (simp add: scan_text_def)
qed

text \<open>C10, at a declaration with the qualifier \<open>final\<close>.\<close>

theorem emitted_kind_and_name_witness:
  "scan_text latin1 [lit ''A.swift''] (lit ''public final class Caf'' @ [233] @ lit ''_9: Base {'') =
     [\<lparr>kind = lit ''class'', name = lit ''Caf'' @ [233] @ lit ''_9'',
       file_path = [lit ''A.swift''], line = 1\<rparr>] \<and>
   lit ''class'' \<in> set KINDS \<and> word_ident latin1 (lit ''Caf'' @ [233] @ lit ''_9'') \<and>
   decl_shape latin1 (lit ''public final class Caf'' @ [233] @ lit ''_9: Base {'')"
proof -
  let ?t = "lit ''public final class Caf'' @ [233] @ lit ''_9: Base {''"
  have l: "splitlines ?t = [?t]"
    by (simp add: splitlines_def lit_def is_linebreak_def)
  have a: "scan_text latin1 [lit ''A.swift''] ?t =
     [\<lparr>kind = lit ''class'', name = lit ''Caf'' @ [233] @ lit ''_9'',
       file_path = [lit ''A.swift''], line = 1\<rparr>]"
    unfolding scan_text_def l by (simp add: match_eval)
  show ?thesis
    using emitted_kind_and_name [of latin1 "[lit ''A.swift'']" ?t] unfolding a l by simp
qed

text \<open>
  C10 as stated fails: the name of a record need not have the shape
  \<open>[A-Za-z_][A-Za-z0-9_]*\<close>, since \<open>\w\<close> accepts U+00E9.
\<close>

theorem non_ascii_name_emitted:
  "scan_text latin1 [lit ''A.swift''] (lit ''public struct Caf'' @ [233]) =
     [\<lparr>kind = lit ''struct'', name = lit ''Caf'' @ [233], file_path = [lit ''A.swift''],
       line = 1\<rparr>] \<and>
   \<not> ascii_ident (lit ''Caf'' @ [233])"
proof
  have l: "splitlines (lit ''public struct Caf'' @ [233]) = [lit ''public struct Caf'' @ [233]]"
    by (simp add: splitlines_def lit_def is_linebreak_def)
  show "scan_text latin1 [lit ''A.swift''] (lit ''public struct Caf'' @ [233]) =
     [\<lparr>kind = lit ''struct'', name = lit ''Caf'' @ [233], file_path = [lit ''A.swift''],
       line = 1\<rparr>]"
    unfolding scan_text_def l by (simp add: match_eval)
next
  show "\<not> ascii_ident (lit ''Caf'' @ [233])"
    by (simp add: ascii_ident_def lit_def is_id_start_def)
qed

section \<open>De-duplication and order\<close>

lemma dedupe_acc: "dedupe ds seen unique = unique @ dedupe ds seen []"
proof (induction ds arbitrary: seen unique)
  case Nil
  show ?case by simp
next
  case (Cons d ds)
  show ?case
    using Cons.IH [of seen unique] Cons.IH [of "insert (key d) seen" "unique @ [d]"]
      Cons.IH [of "insert (key d) seen" "[d]"]
    by simp
qed

lemma dedupe_Cons:
  "dedupe (d # ds) seen [] =
     (if key d \<in> seen then dedupe ds seen [] else d # dedupe ds (insert (key d) seen) [])"
  using dedupe_acc [of ds "insert (key d) seen" "[d]"] by simp

lemma filter_dedupe:
  "filter (\<lambda>d. key d = k) (dedupe ds seen []) =
     (if k \<in> seen then []
      else case find (\<lambda>d. key d = k) ds of None \<Rightarrow> [] | Some d \<Rightarrow> [d])"
proof (induction ds arbitrary: seen)
  case Nil
  show ?case by simp
next
  case (Cons d ds)
  show ?case
    unfolding dedupe_Cons using Cons.IH [of seen] Cons.IH [of "insert (key d) seen"]
    by auto
qed

lemma set_dedupe: "key ` set (dedupe ds seen []) = key ` set ds - seen"
proof (induction ds arbitrary: seen)
  case Nil
  show ?case by simp
next
  case (Cons d ds)
  show ?case
    unfolding dedupe_Cons using Cons.IH [of seen] Cons.IH [of "insert (key d) seen"]
    by auto
qed

lemma distinct_dedupe: "distinct (map key (dedupe ds seen []))"
proof (induction ds arbitrary: seen)
  case Nil
  show ?case by simp
next
  case (Cons d ds)
  have "key d \<notin> key ` set (dedupe ds (insert (key d) seen) [])"
    unfolding set_dedupe by simp
  then show ?case
    unfolding dedupe_Cons using Cons.IH [of seen] Cons.IH [of "insert (key d) seen"]
    by simp
qed

lemma subseq_dedupe: "subseq (dedupe ds seen []) ds"
proof (induction ds arbitrary: seen)
  case Nil
  show ?case by simp
next
  case (Cons d ds)
  show ?case
    unfolding dedupe_Cons using Cons.IH [of seen] Cons.IH [of "insert (key d) seen"]
    by auto
qed

lemma set_dedupe_subset: "d \<in> set (dedupe ds seen []) \<Longrightarrow> d \<in> set ds"
proof (induction ds arbitrary: seen)
  case Nil
  then show ?case by simp
next
  case (Cons x ds)
  then show ?case
    unfolding dedupe_Cons by (auto split: if_splits)
qed

lemma distinct_sort_unique: "distinct (map key (sort_unique (dedupe ds {} [])))"
proof -
  have "mset (map key (sort_unique (dedupe ds {} []))) = mset (map key (dedupe ds {} []))"
    by (simp add: sort_unique_def)
  then show ?thesis
    using distinct_dedupe [of ds "{}"] mset_eq_imp_distinct_iff by blast
qed


lemma keys_sort_unique: "set (map key (sort_unique (dedupe ds {} []))) = key ` set ds"
  using set_dedupe [of ds "{}"] by (simp add: sort_unique_def)


lemma length_unique_one:
  assumes "decls \<noteq> []" "\<And>d. d \<in> set decls \<Longrightarrow> key d = k"
  shows "length (sort_unique (dedupe decls {} [])) = 1"
proof -
  let ?u = "sort_unique (dedupe decls {} [])"
  from assms have "key ` set decls = {k}" by (cases decls) auto
  then have "set (map key ?u) = {k}" unfolding keys_sort_unique .
  moreover have "length (map key ?u) = card (set (map key ?u))"
    using distinct_sort_unique [of decls] by (simp only: distinct_card)
  ultimately show ?thesis by simp
qed

section \<open>The scan of the files of a module\<close>

lemma scan_file_paths:
  assumes "scan_file db fs p = Inr ds" "d \<in> set ds"
  shows "file_path d = p"
proof -
  from assms(1) obtain t where "ds = scan_text db p t"
    by (auto simp: scan_file_def split: sum.splits exn.splits option.splits)
  with assms(2) show ?thesis
    unfolding scan_text_def using scan_lines_props [of d db p 1 "splitlines t"] by blast
qed

lemma collect_Inr_iff:
  "collect db fs files acc = Inr decls \<longleftrightarrow>
     (\<exists>dss. list_all2 (\<lambda>f ds. scan_file db fs f = Inr ds) files dss \<and> decls = acc @ concat dss)"
proof (induction files arbitrary: acc)
  case Nil
  show ?case by auto
next
  case (Cons f files)
  show ?case
  proof (cases "scan_file db fs f")
    case (Inl e)
    then show ?thesis by (simp add: list_all2_Cons1)
  next
    case (Inr ds)
    then show ?thesis
      using Cons.IH [of "acc @ ds"] by (auto simp: list_all2_Cons1)
  qed
qed

lemma collect_paths:
  assumes "collect db fs files [] = Inr decls" "d \<in> set decls"
  shows "file_path d \<in> set files"
proof -
  from assms(1) obtain dss where
    dss: "list_all2 (\<lambda>f ds. scan_file db fs f = Inr ds) files dss" "decls = concat dss"
    unfolding collect_Inr_iff by auto
  from assms(2) dss(2) obtain ds where ds: "ds \<in> set dss" "d \<in> set ds" by auto
  from ds(1) obtain i where i: "i < length dss" "dss ! i = ds"
    by (auto simp: in_set_conv_nth)
  with dss(1) have "scan_file db fs (files ! i) = Inr ds" "i < length files"
    by (auto simp: list_all2_conv_all_nth)
  with ds(2) show ?thesis
    using scan_file_paths [of db fs "files ! i" ds d] by auto
qed

lemma collect_cong:
  "(\<And>f. f \<in> set files \<Longrightarrow> scan_file db fs' f = scan_file db fs f) \<Longrightarrow>
     collect db fs' files acc = collect db fs files acc"
  by (induction files arbitrary: acc) (auto split: sum.splits)


lemma collect_same_decl:
  assumes "files \<noteq> []"
    and "\<And>f. f \<in> set files \<Longrightarrow> \<exists>d. scan_file db fs f = Inr [d] \<and> key d = k"
  shows "\<exists>decls. collect db fs files acc = Inr (acc @ decls) \<and> decls \<noteq> [] \<and>
           (\<forall>d \<in> set decls. key d = k)"
  using assms
proof (induction files arbitrary: acc)
  case Nil
  then show ?case by simp
next
  case (Cons f files)
  from Cons.prems(2) [of f] obtain d where d: "scan_file db fs f = Inr [d]" "key d = k"
    by auto
  show ?case
  proof (cases "files = []")
    case True
    with d show ?thesis by auto
  next
    case False
    from Cons.IH [OF False, of "acc @ [d]"] Cons.prems(2)
    obtain decls where "collect db fs files (acc @ [d]) = Inr ((acc @ [d]) @ decls)"
      "\<forall>d \<in> set decls. key d = k" by auto
    with d show ?thesis
      by (intro exI [of _ "d # decls"]) simp
  qed
qed


section \<open>File discovery\<close>

lemma excluded_iff:
  "excluded db p \<longleftrightarrow> (\<exists>seg \<in> set p. str_lower db seg = lit ''.build'' \<or> str_lower db seg = lit ''.swiftpm'')"
  unfolding excluded_def Let_def image_iff by metis

lemma iter_swift_files_not_excluded: "p \<in> set (iter_swift_files db fs m) \<Longrightarrow> \<not> excluded db p"
  by (simp add: iter_swift_files_def)

lemma iter_swift_files_prefix: "p \<in> set (iter_swift_files db fs m) \<Longrightarrow> prefix m p"
  by (auto simp: iter_swift_files_def)

lemma unique_under_root:
  assumes "collect db fs (iter_swift_files db fs m) [] = Inr decls" "prefix root m"
    "d \<in> set (sort_unique (dedupe decls {} []))"
  shows "prefix root (file_path d)"
proof -
  from assms(3) have "d \<in> set decls"
    using set_dedupe_subset [of d decls "{}"] by (simp add: sort_unique_def)
  from collect_paths [OF assms(1) this] have "prefix m (file_path d)"
    by (rule iter_swift_files_prefix)
  with assms(2) show ?thesis by (rule prefix_order.trans)
qed

lemma excluded_files_ignored:
  fixes fs :: "filesystem" and t1 :: "exn + ustr" and t2 :: "ustr option"
  assumes "excluded db p"
  defines "fs' \<equiv> fs\<lparr>rglob_swift := \<lambda>m'. filter (\<lambda>rel. m' @ rel \<noteq> p) (rglob_swift fs m'),
                      read_text := (read_text fs)(p := t1),
                      read_text_replace := (read_text_replace fs)(p := t2)\<rparr>"
  shows "iter_swift_files db fs' m = iter_swift_files db fs m"
    and "collect db fs' (iter_swift_files db fs' m) [] = collect db fs (iter_swift_files db fs m) []"
    and "report_module db fs' root m out = report_module db fs root m out"
    and "report_modules db fs' root ms out = report_modules db fs root ms out"
    and "main db fs' root = main db fs root"
proof -
  show it: "iter_swift_files db fs' m = iter_swift_files db fs m" for m
    unfolding iter_swift_files_def fs'_def using assms(1)
    by (auto simp: filter_map comp_def intro!: arg_cong [where f = "map _"] filter_cong)
  have sf: "scan_file db fs' q = scan_file db fs q" if "q \<noteq> p" for q
  proof -
    have r: "read_text fs' q = read_text fs q" "read_text_replace fs' q = read_text_replace fs q"
      using that by (simp_all add: fs'_def)
    show ?thesis unfolding scan_file_def r ..
  qed
  have co2: "collect db fs' (iter_swift_files db fs m) [] =
      collect db fs (iter_swift_files db fs m) []" for m
  proof (rule collect_cong)
    fix f assume "f \<in> set (iter_swift_files db fs m)"
    then have "f \<noteq> p" using iter_swift_files_not_excluded assms(1) by blast
    then show "scan_file db fs' f = scan_file db fs f" by (rule sf)
  qed
  show "collect db fs' (iter_swift_files db fs' m) [] =
      collect db fs (iter_swift_files db fs m) []"
    unfolding it by (rule co2)
  show rm: "report_module db fs' root m out = report_module db fs root m out" for m out
    unfolding report_module_def it co2 ..
  show rms: "report_modules db fs' root ms out = report_modules db fs root ms out" for ms out
    by (induction ms arbitrary: out) (simp_all add: rm)
  show "main db fs' root = main db fs root"
  proof -
    have e: "path_exists fs' = path_exists fs" "iterdir fs' = iterdir fs" "is_dir fs' = is_dir fs"
      by (simp_all add: fs'_def)
    show ?thesis unfolding main_def rms e ..
  qed
qed

section \<open>The listing and the report of a module\<close>

lemma print_entries_ok:
  "(\<And>d. d \<in> set ds \<Longrightarrow> prefix root (file_path d)) \<Longrightarrow>
     print_entries root ds out = (out @ map (entry_line root) ds, None)"
proof (induction ds arbitrary: out)
  case Nil
  show ?case by simp
next
  case (Cons d ds)
  have "prefix root (file_path d)" using Cons.prems by simp
  then have "relative_to (file_path d) root = Some (drop (length root) (file_path d))"
    by (simp add: relative_to_def)
  moreover have "print_entries root ds (out @ [entry_line root d]) =
      ((out @ [entry_line root d]) @ map (entry_line root) ds, None)"
    by (rule Cons.IH) (simp add: Cons.prems)
  ultimately show ?case by (simp add: entry_line_def)
qed

lemma print_listing_ok:
  assumes "\<And>d. d \<in> set unique \<Longrightarrow> prefix root (file_path d)"
  shows "print_listing root unique out =
     (out @ (if unique = [] then []
             else map (entry_line root) (take 60 unique) @
                  (if length unique > 60 then [More (length unique - 60)] else []) @ [Blank]),
      None)"
proof -
  have "print_entries root (take 60 unique) out =
      (out @ map (entry_line root) (take 60 unique), None)"
    by (rule print_entries_ok) (auto dest: in_set_takeD assms)
  then show ?thesis by (simp add: print_listing_def)
qed

lemma filter_is_entry_map: "filter is_entry (map (entry_line root) ds) = map (entry_line root) ds"
  by (induction ds) (simp_all add: entry_line_def)

lemma filter_is_more_map: "filter is_more (map (entry_line root) ds) = []"
  by (induction ds) (simp_all add: entry_line_def)

lemma print_entries_appends: "\<exists>ls. fst (print_entries root ds out) = out @ ls"
proof (induction ds arbitrary: out)
  case Nil
  show ?case by simp
next
  case (Cons d ds)
  show ?case
  proof (cases "relative_to (file_path d) root")
    case None
    then show ?thesis by simp
  next
    case (Some rel)
    from Cons.IH [of "out @ [Entry (kind d) (name d) rel (line d)]"] Some
    show ?thesis by auto
  qed
qed

lemma print_listing_appends: "\<exists>ls. fst (print_listing root unique out) = out @ ls"
proof -
  from print_entries_appends [of root "take 60 unique" out]
  obtain ls where "fst (print_entries root (take 60 unique) out) = out @ ls" by blast
  then show ?thesis
    by (cases "print_entries root (take 60 unique) out")
       (auto simp: print_listing_def split: option.splits)
qed

lemma report_module_lines:
  assumes "collect db fs (iter_swift_files db fs m) [] = Inr decls"
  shows "\<exists>rest. fst (report_module db fs root m out) =
           out @ [Heading (path_name m), Blank,
                  FilesScanned (length (iter_swift_files db fs m)),
                  PublicDecls (length (sort_unique (dedupe decls {} []))), Blank] @ rest"
proof -
  let ?u = "sort_unique (dedupe decls {} [])"
  let ?out = "out @ [Heading (path_name m), Blank,
                  FilesScanned (length (iter_swift_files db fs m)),
                  PublicDecls (length ?u), Blank]"
  from print_listing_appends [of root ?u ?out]
  obtain ls where "fst (print_listing root ?u ?out) = ?out @ ls" by blast
  then show ?thesis
    using assms by (simp add: report_module_def Let_def)
qed

lemma report_module_listing:
  assumes "collect db fs (iter_swift_files db fs m) [] = Inr decls" "prefix root m"
  shows "report_module db fs root m out =
     (out @ [Heading (path_name m), Blank, FilesScanned (length (iter_swift_files db fs m)),
             PublicDecls (length (sort_unique (dedupe decls {} []))), Blank] @
        (if sort_unique (dedupe decls {} []) = [] then []
         else map (entry_line root) (take 60 (sort_unique (dedupe decls {} []))) @
              (if length (sort_unique (dedupe decls {} [])) > 60
               then [More (length (sort_unique (dedupe decls {} [])) - 60)] else []) @ [Blank]),
      None)"
proof -
  let ?u = "sort_unique (dedupe decls {} [])"
  have u: "\<And>d. d \<in> set ?u \<Longrightarrow> prefix root (file_path d)"
    using unique_under_root [OF assms] .
  have pl: "print_listing root ?u lines =
     (lines @ (if ?u = [] then []
             else map (entry_line root) (take 60 ?u) @
                  (if length ?u > 60 then [More (length ?u - 60)] else []) @ [Blank]),
      None)" for lines
    by (rule print_listing_ok) (rule u)
  show ?thesis
    by (simp add: report_module_def Let_def assms(1) pl)
qed




section \<open>The sample checkout\<close>

lemmas path_eval = demo_src_def demo_root_def lit_def

lemma demo_sources_root: "sources_root_of demo_root = demo_src"
  by (simp add: sources_root_of_def demo_root_def demo_src_def)

lemma demo_files_ModA:
  "map (\<lambda>rel. (demo_src @ [lit ''ModA'']) @ rel) (rglob_swift demo_fs (demo_src @ [lit ''ModA''])) =
     [demo_src @ [lit ''ModA'', lit ''A.swift''], demo_src @ [lit ''ModA'', lit ''.Build'', lit ''x.swift'']]"
  "iter_swift_files latin1 demo_fs (demo_src @ [lit ''ModA'']) =
     [demo_src @ [lit ''ModA'', lit ''A.swift'']]"
  by (simp_all add: iter_swift_files_def excluded_def demo_fs_def latin1_def latin1_lower_def path_eval)

lemma demo_files_ModB:
  "iter_swift_files latin1 demo_fs (demo_src @ [lit ''ModB'']) =
     [demo_src @ [lit ''ModB'', lit ''Sub'', lit ''B.swift''], demo_src @ [lit ''ModB'', lit ''C.swift'']]"
  by (simp add: iter_swift_files_def excluded_def demo_fs_def latin1_def latin1_lower_def path_eval)

lemma demo_files_ModC:
  "iter_swift_files latin1 demo_fs (demo_src @ [lit ''ModC'']) = []"
  by (simp add: iter_swift_files_def excluded_def demo_fs_def latin1_def latin1_lower_def path_eval)

lemma demo_reads:
  "read_text demo_fs (demo_src @ [lit ''ModA'', lit ''A.swift'']) =
     Inr (lit ''import X'' @ [10] @ lit ''public struct Widget {'' @ [10])"
  "read_text demo_fs (demo_src @ [lit ''ModB'', lit ''Sub'', lit ''B.swift'']) = Inl UnicodeDecodeError"
  "read_text_replace demo_fs (demo_src @ [lit ''ModB'', lit ''Sub'', lit ''B.swift'']) =
     Some ([65533, 10] @ lit ''public func run() {'')"
  "read_text demo_fs (demo_src @ [lit ''ModB'', lit ''C.swift'']) = Inr (lit ''public func run() {'')"
  "read_text locked_fs (demo_src @ [lit ''ModA'', lit ''A.swift'']) = Inl OSError"
  by (simp_all add: demo_fs_def locked_fs_def path_eval)

lemma demo_texts:
  "scan_text latin1 p (lit ''import X'' @ [10] @ lit ''public struct Widget {'' @ [10]) =
     [\<lparr>kind = lit ''struct'', name = lit ''Widget'', file_path = p, line = 2\<rparr>]"
  "scan_text latin1 p ([65533, 10] @ lit ''public func run() {'') =
     [\<lparr>kind = lit ''func'', name = lit ''run'', file_path = p, line = 2\<rparr>]"
  "scan_text latin1 p (lit ''public func run() {'') =
     [\<lparr>kind = lit ''func'', name = lit ''run'', file_path = p, line = 1\<rparr>]"
  by (simp_all add: scan_text_def splitlines_def is_linebreak_def match_eval)

lemma demo_scans:
  "scan_file latin1 demo_fs (demo_src @ [lit ''ModA'', lit ''A.swift'']) =
     Inr [\<lparr>kind = lit ''struct'', name = lit ''Widget'',
           file_path = demo_src @ [lit ''ModA'', lit ''A.swift''], line = 2\<rparr>]"
  "scan_file latin1 demo_fs (demo_src @ [lit ''ModB'', lit ''Sub'', lit ''B.swift'']) =
     Inr [\<lparr>kind = lit ''func'', name = lit ''run'',
           file_path = demo_src @ [lit ''ModB'', lit ''Sub'', lit ''B.swift''], line = 2\<rparr>]"
  "scan_file latin1 demo_fs (demo_src @ [lit ''ModB'', lit ''C.swift'']) =
     Inr [\<lparr>kind = lit ''func'', name = lit ''run'',
           file_path = demo_src @ [lit ''ModB'', lit ''C.swift''], line = 1\<rparr>]"
  unfolding scan_file_def demo_reads by (simp_all add: demo_texts [simplified])

lemma demo_collect:
  "collect latin1 demo_fs (iter_swift_files latin1 demo_fs (demo_src @ [lit ''ModA''])) [] =
     Inr [\<lparr>kind = lit ''struct'', name = lit ''Widget'',
           file_path = demo_src @ [lit ''ModA'', lit ''A.swift''], line = 2\<rparr>]"
  "collect latin1 demo_fs (iter_swift_files latin1 demo_fs (demo_src @ [lit ''ModB''])) [] =
     Inr [\<lparr>kind = lit ''func'', name = lit ''run'',
           file_path = demo_src @ [lit ''ModB'', lit ''Sub'', lit ''B.swift''], line = 2\<rparr>,
          \<lparr>kind = lit ''func'', name = lit ''run'',
           file_path = demo_src @ [lit ''ModB'', lit ''C.swift''], line = 1\<rparr>]"
  "collect latin1 demo_fs (iter_swift_files latin1 demo_fs (demo_src @ [lit ''ModC''])) [] = Inr []"
  unfolding demo_files_ModA demo_files_ModB demo_files_ModC
  by (simp_all add: demo_scans)



lemma many_decls_under_root: "\<forall>d \<in> set (many_decls n). prefix demo_root (file_path d)"
  by (simp add: many_decls_def)

section \<open>Claims about reading a file\<close>

text \<open>
  C7. The scan of a file raises exactly when a read fails for a reason other than decoding.
  When the first read returns a text, that text is scanned. When it fails with a decoding
  error, the file is read again with the replacement strategy and the recovered text is
  scanned, so a decoding failure alone never ends the scan. Any other exception of the first
  read, and a failure of the second read, are not caught.
\<close>

theorem scan_file_errors:
  "(read_text fs p = Inr t \<longrightarrow> scan_file db fs p = Inr (scan_text db p t)) \<and>
   (read_text fs p = Inl UnicodeDecodeError \<and> read_text_replace fs p = Some t' \<longrightarrow>
      scan_file db fs p = Inr (scan_text db p t')) \<and>
   (scan_file db fs p = Inl e \<longleftrightarrow>
      (read_text fs p = Inl e \<and> e \<noteq> UnicodeDecodeError) \<or>
      (read_text fs p = Inl UnicodeDecodeError \<and> read_text_replace fs p = None \<and> e = OSError))"
  by (auto simp: scan_file_def split: sum.splits exn.splits option.splits)

text \<open>
  C7, at a file that is not valid UTF-8 (its recovered text has U+FFFD on the first line) and
  at a file that cannot be read.
\<close>

theorem scan_file_errors_witness:
  "read_text demo_fs (demo_src @ [lit ''ModB'', lit ''Sub'', lit ''B.swift'']) = Inl UnicodeDecodeError \<and>
   scan_file latin1 demo_fs (demo_src @ [lit ''ModB'', lit ''Sub'', lit ''B.swift'']) =
     Inr [\<lparr>kind = lit ''func'', name = lit ''run'',
           file_path = demo_src @ [lit ''ModB'', lit ''Sub'', lit ''B.swift''], line = 2\<rparr>] \<and>
   read_text locked_fs (demo_src @ [lit ''ModA'', lit ''A.swift'']) = Inl OSError \<and>
   scan_file latin1 locked_fs (demo_src @ [lit ''ModA'', lit ''A.swift'']) = Inl OSError"
  using scan_file_errors [of demo_fs "demo_src @ [lit ''ModB'', lit ''Sub'', lit ''B.swift'']" _ latin1
            "[65533, 10] @ lit ''public func run() {''"]
    scan_file_errors [of locked_fs "demo_src @ [lit ''ModA'', lit ''A.swift'']" _ latin1 _ OSError]
  by (simp add: demo_reads demo_texts [simplified])

section \<open>Claims about the Module Aggregator\<close>

text \<open>
  C2. In the aggregated list of a module, the declarations with a given kind and name are
  none when the extraction sequence has none, and otherwise exactly one: the first of the
  sequence with that kind and name, with its file and line. The pairs of kind and name of
  the list are distinct, and the de-duplicated list keeps the order of the sequence.
\<close>

theorem dedupe_keeps_first:
  "filter (\<lambda>d. key d = k) (sort_unique (dedupe decls {} [])) =
     (case find (\<lambda>d. key d = k) decls of None \<Rightarrow> [] | Some d \<Rightarrow> [d]) \<and>
   distinct (map key (sort_unique (dedupe decls {} []))) \<and>
   subseq (dedupe decls {} []) decls"
proof -
  have "filter (\<lambda>d. key d = k) (sort_unique (dedupe decls {} [])) =
          sort_key key (filter (\<lambda>d. key d = k) (dedupe decls {} []))"
    by (simp add: sort_unique_def filter_sort)
  also have "\<dots> = (case find (\<lambda>d. key d = k) decls of None \<Rightarrow> [] | Some d \<Rightarrow> [d])"
    unfolding filter_dedupe by (simp split: option.splits)
  finally show ?thesis
    using distinct_sort_unique [of decls] subseq_dedupe [of decls "{}"] by simp
qed

text \<open>C2, at a sequence in which \<open>struct A\<close> occurs in two files.\<close>

theorem dedupe_keeps_first_witness:
  "filter (\<lambda>d. key d = (lit ''struct'', lit ''A''))
     (sort_unique (dedupe
        [\<lparr>kind = lit ''struct'', name = lit ''B'', file_path = [lit ''F.swift''], line = 1\<rparr>,
         \<lparr>kind = lit ''struct'', name = lit ''A'', file_path = [lit ''F.swift''], line = 7\<rparr>,
         \<lparr>kind = lit ''struct'', name = lit ''A'', file_path = [lit ''G.swift''], line = 2\<rparr>] {} [])) =
   [\<lparr>kind = lit ''struct'', name = lit ''A'', file_path = [lit ''F.swift''], line = 7\<rparr>]"
  using dedupe_keeps_first [of "(lit ''struct'', lit ''A'')"
        "[\<lparr>kind = lit ''struct'', name = lit ''B'', file_path = [lit ''F.swift''], line = 1\<rparr>,
         \<lparr>kind = lit ''struct'', name = lit ''A'', file_path = [lit ''F.swift''], line = 7\<rparr>,
         \<lparr>kind = lit ''struct'', name = lit ''A'', file_path = [lit ''G.swift''], line = 2\<rparr>]"]
  by (simp add: key_def lit_def)



text \<open>
  C9. When the extraction pass of a module succeeds, the report of the module starts with
  its heading, the number of matches of the traversal that have no excluded part (counted
  by a second call of \<open>iter_swift_files\<close>) and the number of unique declarations. A module
  without eligible files is reported with the counts 0 and 0 and no exception. A module
  with at least one eligible file, each file holding one declaration of the same kind and
  name, is reported with the number of its eligible files and the count 1.
\<close>

theorem files_scanned_count:
  "(\<forall>decls. collect db fs (iter_swift_files db fs m) [] = Inr decls \<longrightarrow>
      (\<exists>rest. fst (report_module db fs root m out) =
         out @ [Heading (path_name m), Blank,
                FilesScanned (length (filter (\<lambda>p. \<not> excluded db p)
                                        (map (\<lambda>rel. m @ rel) (rglob_swift fs m)))),
                PublicDecls (length (sort_unique (dedupe decls {} []))), Blank] @ rest)) \<and>
   (iter_swift_files db fs m = [] \<longrightarrow>
      report_module db fs root m out =
        (out @ [Heading (path_name m), Blank, FilesScanned 0, PublicDecls 0, Blank], None)) \<and>
   (iter_swift_files db fs m \<noteq> [] \<and>
    (\<forall>f \<in> set (iter_swift_files db fs m). \<exists>d. scan_file db fs f = Inr [d] \<and> key d = k) \<longrightarrow>
      (\<exists>rest. fst (report_module db fs root m out) =
         out @ [Heading (path_name m), Blank,
                FilesScanned (length (iter_swift_files db fs m)),
                PublicDecls 1, Blank] @ rest))"
proof (intro conjI allI impI)
  fix decls
  assume "collect db fs (iter_swift_files db fs m) [] = Inr decls"
  from report_module_lines [OF this, of root out]
  show "\<exists>rest. fst (report_module db fs root m out) =
         out @ [Heading (path_name m), Blank,
                FilesScanned (length (filter (\<lambda>p. \<not> excluded db p)
                                        (map (\<lambda>rel. m @ rel) (rglob_swift fs m)))),
                PublicDecls (length (sort_unique (dedupe decls {} []))), Blank] @ rest"
    by (simp add: iter_swift_files_def)
next
  assume "iter_swift_files db fs m = []"
  then show "report_module db fs root m out =
        (out @ [Heading (path_name m), Blank, FilesScanned 0, PublicDecls 0, Blank], None)"
    by (simp add: report_module_def sort_unique_def print_listing_def)
next
  assume a: "iter_swift_files db fs m \<noteq> [] \<and>
    (\<forall>f \<in> set (iter_swift_files db fs m). \<exists>d. scan_file db fs f = Inr [d] \<and> key d = k)"
  then obtain decls where
    c: "collect db fs (iter_swift_files db fs m) [] = Inr ([] @ decls)" and
    d: "decls \<noteq> []" "\<forall>d \<in> set decls. key d = k"
    using collect_same_decl [of "iter_swift_files db fs m" db fs k "[]"] by blast
  from d have "length (sort_unique (dedupe decls {} [])) = 1"
    using length_unique_one [of decls k] by blast
  with report_module_lines [of db fs m decls root out] c
  show "\<exists>rest. fst (report_module db fs root m out) =
         out @ [Heading (path_name m), Blank,
                FilesScanned (length (iter_swift_files db fs m)),
                PublicDecls 1, Blank] @ rest"
    by simp
qed

text \<open>
  C9, at \<open>ModC\<close>, which has no eligible file, and at \<open>ModB\<close>, the two files of which
  declare \<open>func run\<close>.
\<close>

theorem files_scanned_count_witness:
  "iter_swift_files latin1 demo_fs (demo_src @ [lit ''ModC'']) = [] \<and>
   report_module latin1 demo_fs demo_root (demo_src @ [lit ''ModC'']) [] =
     ([Heading (lit ''ModC''), Blank, FilesScanned 0, PublicDecls 0, Blank], None) \<and>
   iter_swift_files latin1 demo_fs (demo_src @ [lit ''ModB'']) =
     [demo_src @ [lit ''ModB'', lit ''Sub'', lit ''B.swift''], demo_src @ [lit ''ModB'', lit ''C.swift'']] \<and>
   scan_file latin1 demo_fs (demo_src @ [lit ''ModB'', lit ''Sub'', lit ''B.swift'']) =
     Inr [\<lparr>kind = lit ''func'', name = lit ''run'',
           file_path = demo_src @ [lit ''ModB'', lit ''Sub'', lit ''B.swift''], line = 2\<rparr>] \<and>
   scan_file latin1 demo_fs (demo_src @ [lit ''ModB'', lit ''C.swift'']) =
     Inr [\<lparr>kind = lit ''func'', name = lit ''run'',
           file_path = demo_src @ [lit ''ModB'', lit ''C.swift''], line = 1\<rparr>] \<and>
   (\<exists>rest. fst (report_module latin1 demo_fs demo_root (demo_src @ [lit ''ModB'']) []) =
      [Heading (lit ''ModB''), Blank, FilesScanned 2, PublicDecls 1, Blank] @ rest)"
proof -
  let ?B = "demo_src @ [lit ''ModB'']" and ?C = "demo_src @ [lit ''ModC'']"
  have n: "path_name ?B = lit ''ModB''" "path_name ?C = lit ''ModC''"
    by (simp_all add: path_name_def)
  have l: "length (iter_swift_files latin1 demo_fs ?B) = 2"
    unfolding demo_files_ModB by simp
  have h: "\<forall>f \<in> set (iter_swift_files latin1 demo_fs ?B).
      \<exists>d. scan_file latin1 demo_fs f = Inr [d] \<and> key d = (lit ''func'', lit ''run'')"
    unfolding demo_files_ModB by (simp add: demo_scans key_def)
  have 1: "report_module latin1 demo_fs demo_root ?C [] =
     ([Heading (lit ''ModC''), Blank, FilesScanned 0, PublicDecls 0, Blank], None)"
    using files_scanned_count [of latin1 demo_fs ?C demo_root "[]"] demo_files_ModC unfolding n by simp
  have "iter_swift_files latin1 demo_fs ?B \<noteq> []"
    unfolding demo_files_ModB by simp
  with h files_scanned_count [of latin1 demo_fs ?B demo_root "[]" "(lit ''func'', lit ''run'')"]
  have 2: "\<exists>rest. fst (report_module latin1 demo_fs demo_root ?B []) =
      [] @ [Heading (path_name ?B), Blank, FilesScanned (length (iter_swift_files latin1 demo_fs ?B)),
            PublicDecls 1, Blank] @ rest"
    by blast
  from 1 2 demo_files_ModB demo_files_ModC demo_scans(2,3) show ?thesis unfolding n l by simp
qed

section \<open>Claims about File Discovery\<close>

text \<open>
  C5. A path with a part that is \<open>.build\<close> or \<open>.swiftpm\<close> after lower-casing is never
  yielded by discovery; no declaration collected for a module comes from it; and the program
  prints the same lines and ends in the same way when the path is taken out of the matches
  of the traversal and the file is given any other content. So the file adds neither to a
  file count nor to the declarations, whatever it contains.
\<close>

theorem excluded_path_never_scanned:
  assumes "\<exists>seg \<in> set p. str_lower db seg = lit ''.build'' \<or> str_lower db seg = lit ''.swiftpm''"
  shows "p \<notin> set (iter_swift_files db fs m) \<and>
         (\<forall>decls. collect db fs (iter_swift_files db fs m) [] = Inr decls \<longrightarrow>
            (\<forall>d \<in> set decls. file_path d \<noteq> p)) \<and>
         main db (fs\<lparr>rglob_swift := \<lambda>m'. filter (\<lambda>rel. m' @ rel \<noteq> p) (rglob_swift fs m'),
                     read_text := (read_text fs)(p := t1),
                     read_text_replace := (read_text_replace fs)(p := t2)\<rparr>) root =
         main db fs root"
proof -
  from assms have ex: "excluded db p" by (simp add: excluded_iff)
  then have a: "p \<notin> set (iter_swift_files db fs m)"
    using iter_swift_files_not_excluded by blast
  have "file_path d \<noteq> p"
    if "collect db fs (iter_swift_files db fs m) [] = Inr decls" "d \<in> set decls" for decls d
    using collect_paths [OF that] a by auto
  with a excluded_files_ignored(5) [OF ex] show ?thesis by blast
qed

text \<open>
  C5, at \<open>ModA/.Build/x.swift\<close>, which the traversal finds and which holds a declaration.
\<close>

theorem excluded_path_never_scanned_witness:
  "str_lower latin1 (lit ''.Build'') = lit ''.build'' \<and>
   demo_src @ [lit ''ModA'', lit ''.Build'', lit ''x.swift''] \<in>
     set (map (\<lambda>rel. (demo_src @ [lit ''ModA'']) @ rel) (rglob_swift demo_fs (demo_src @ [lit ''ModA'']))) \<and>
   read_text demo_fs (demo_src @ [lit ''ModA'', lit ''.Build'', lit ''x.swift'']) =
     Inr (lit ''public struct Hidden'') \<and>
   demo_src @ [lit ''ModA'', lit ''.Build'', lit ''x.swift''] \<notin>
     set (iter_swift_files latin1 demo_fs (demo_src @ [lit ''ModA'']))"
proof -
  let ?p = "demo_src @ [lit ''ModA'', lit ''.Build'', lit ''x.swift'']"
  have l: "str_lower latin1 (lit ''.Build'') = lit ''.build''"
    by (simp add: latin1_def latin1_lower_def lit_def)
  then have h: "\<exists>seg \<in> set ?p. str_lower latin1 seg = lit ''.build'' \<or> str_lower latin1 seg = lit ''.swiftpm''"
    by simp
  have r: "read_text demo_fs ?p = Inr (lit ''public struct Hidden'')"
    by (simp add: demo_fs_def path_eval)
  from excluded_path_never_scanned [OF h, of demo_fs "demo_src @ [lit ''ModA'']"] l r show ?thesis
    unfolding demo_files_ModA by simp
qed

section \<open>Claims about the Report Renderer\<close>

text \<open>
  C4. For a de-duplicated list of \<open>n\<close> declarations, the files of which lie under the
  root as those of discovery do (lemma \<open>unique_under_root\<close>), the listing prints no
  exception, its entries are those of the first \<open>min n 60\<close> declarations, and its only
  summary line is \<open>More (n - 60)\<close>, printed after the entries when \<open>n > 60\<close>; there is
  none when \<open>n \<le> 60\<close>.
\<close>

theorem listing_capped_at_60:
  "((\<forall>d \<in> set unique. prefix root (file_path d)) \<longrightarrow>
      (\<exists>ls. print_listing root unique out = (out @ ls, None) \<and>
         filter is_entry ls = map (entry_line root) (take 60 unique) \<and>
         length (filter is_entry ls) = min (length unique) 60 \<and>
         filter is_more ls = (if length unique > 60 then [More (length unique - 60)] else []) \<and>
         (length unique > 60 \<longrightarrow> suffix [More (length unique - 60), Blank] ls))) \<and>
   (collect db fs (iter_swift_files db fs (sources_root_of root @ [n])) [] = Inr decls \<longrightarrow>
      (\<exists>ls. report_module db fs root (sources_root_of root @ [n]) out =
         (out @ [Heading n, Blank,
                 FilesScanned (length (iter_swift_files db fs (sources_root_of root @ [n]))),
                 PublicDecls (length (sort_unique (dedupe decls {} []))), Blank] @ ls, None) \<and>
         length (filter is_entry ls) = min (length (sort_unique (dedupe decls {} []))) 60 \<and>
         filter is_more ls =
           (if length (sort_unique (dedupe decls {} [])) > 60
            then [More (length (sort_unique (dedupe decls {} [])) - 60)] else [])))"
proof (intro conjI impI)
  assume a: "\<forall>d \<in> set unique. prefix root (file_path d)"
  let ?ls = "if unique = [] then []
             else map (entry_line root) (take 60 unique) @
                  (if length unique > 60 then [More (length unique - 60)] else []) @ [Blank]"
  have 1: "print_listing root unique out = (out @ ?ls, None)"
    by (rule print_listing_ok) (simp add: a)
  have 2: "filter is_entry ?ls = map (entry_line root) (take 60 unique)"
    by (simp add: filter_is_entry_map)
  have 3: "length (filter is_entry ?ls) = min (length unique) 60"
    unfolding 2 by simp
  have 4: "filter is_more ?ls = (if length unique > 60 then [More (length unique - 60)] else [])"
    by (auto simp: filter_is_more_map)
  have 5: "length unique > 60 \<longrightarrow> suffix [More (length unique - 60), Blank] ?ls"
    by (auto simp: suffix_def)
  from 1 2 3 4 5
  show "\<exists>ls. print_listing root unique out = (out @ ls, None) \<and>
         filter is_entry ls = map (entry_line root) (take 60 unique) \<and>
         length (filter is_entry ls) = min (length unique) 60 \<and>
         filter is_more ls = (if length unique > 60 then [More (length unique - 60)] else []) \<and>
         (length unique > 60 \<longrightarrow> suffix [More (length unique - 60), Blank] ls)"
    by blast
next
  let ?m = "sources_root_of root @ [n]"
  let ?u = "sort_unique (dedupe decls {} [])"
  let ?ls = "if ?u = [] then []
             else map (entry_line root) (take 60 ?u) @
                  (if length ?u > 60 then [More (length ?u - 60)] else []) @ [Blank]"
  assume c: "collect db fs (iter_swift_files db fs ?m) [] = Inr decls"
  have p: "prefix root ?m" by (simp add: sources_root_of_def)
  have n: "path_name ?m = n" by (simp add: path_name_def)
  have 1: "report_module db fs root ?m out =
         (out @ [Heading n, Blank, FilesScanned (length (iter_swift_files db fs ?m)),
                 PublicDecls (length ?u), Blank] @ ?ls, None)"
    using report_module_listing [OF c p, of out] unfolding n .
  have 2: "length (filter is_entry ?ls) = min (length ?u) 60"
    by (simp add: filter_is_entry_map)
  have 3: "filter is_more ?ls = (if length ?u > 60 then [More (length ?u - 60)] else [])"
    by (auto simp: filter_is_more_map)
  from 1 2 3
  show "\<exists>ls. report_module db fs root ?m out =
         (out @ [Heading n, Blank, FilesScanned (length (iter_swift_files db fs ?m)),
                 PublicDecls (length ?u), Blank] @ ls, None) \<and>
         length (filter is_entry ls) = min (length ?u) 60 \<and>
         filter is_more ls = (if length ?u > 60 then [More (length ?u - 60)] else [])"
    by blast
qed

text \<open>
  C4, at 61 declarations: 60 entries and the summary line \<open>- ... (1 more)\<close>; and at 60
  declarations: 60 entries and no summary line.
\<close>

theorem listing_capped_at_60_witness:
  "length (many_decls 61) = 61 \<and>
   (\<exists>ls. print_listing demo_root (many_decls 61) [] = (ls, None) \<and>
      length (filter is_entry ls) = 60 \<and> filter is_more ls = [More 1] \<and>
      suffix [More 1, Blank] ls) \<and>
   render (More 1) = lit ''- ... (1 more)'' \<and>
   (\<exists>ls. print_listing demo_root (many_decls 60) [] = (ls, None) \<and>
      length (filter is_entry ls) = 60 \<and> filter is_more ls = []) \<and>
   (\<exists>ls. report_module latin1 demo_fs demo_root (demo_src @ [lit ''ModA'']) [] =
      ([Heading (lit ''ModA''), Blank, FilesScanned 1, PublicDecls 1, Blank] @ ls, None) \<and>
      length (filter is_entry ls) = 1 \<and> filter is_more ls = [])"
proof -
  have l: "length (many_decls 61) = 61" "length (many_decls 60) = 60"
    by (simp_all add: many_decls_def)
  have r: "render (More 1) = lit ''- ... (1 more)''"
    by (simp add: str_of_nat.simps lit_def)
  have a: "\<exists>ls. print_listing demo_root (many_decls 61) [] = (ls, None) \<and>
      length (filter is_entry ls) = 60 \<and> filter is_more ls = [More 1] \<and>
      suffix [More 1, Blank] ls"
    using listing_capped_at_60 [of "many_decls 61" demo_root "[]"] many_decls_under_root [of 61]
    unfolding l by (simp, blast)
  have b: "\<exists>ls. print_listing demo_root (many_decls 60) [] = (ls, None) \<and>
      length (filter is_entry ls) = 60 \<and> filter is_more ls = []"
    using listing_capped_at_60 [of "many_decls 60" demo_root "[]"] many_decls_under_root [of 60]
    unfolding l by (simp, blast)
  have u: "length (sort_unique (dedupe
      [\<lparr>kind = lit ''struct'', name = lit ''Widget'',
        file_path = demo_src @ [lit ''ModA'', lit ''A.swift''], line = 2\<rparr>] {} [])) = 1"
    by (simp add: sort_unique_def)
  let ?d = "\<lparr>kind = lit ''struct'', name = lit ''Widget'',
        file_path = demo_src @ [lit ''ModA'', lit ''A.swift''], line = 2\<rparr>"
  have c0: "collect latin1 demo_fs
      (iter_swift_files latin1 demo_fs (sources_root_of demo_root @ [lit ''ModA''])) [] = Inr [?d]"
    unfolding demo_sources_root by (rule demo_collect(1))
  from listing_capped_at_60 [where root = demo_root and db = latin1 and fs = demo_fs
        and n = "lit ''ModA''" and out = "[]" and decls = "[?d]" and unique = "[]"] c0
  have "\<exists>ls. report_module latin1 demo_fs demo_root (sources_root_of demo_root @ [lit ''ModA'']) [] =
         ([] @ [Heading (lit ''ModA''), Blank,
                 FilesScanned (length (iter_swift_files latin1 demo_fs
                                         (sources_root_of demo_root @ [lit ''ModA'']))),
                 PublicDecls (length (sort_unique (dedupe [?d] {} []))), Blank] @ ls, None) \<and>
         length (filter is_entry ls) = min (length (sort_unique (dedupe [?d] {} []))) 60 \<and>
         filter is_more ls =
           (if length (sort_unique (dedupe [?d] {} [])) > 60
            then [More (length (sort_unique (dedupe [?d] {} [])) - 60)] else [])"
    by blast
  then have c: "\<exists>ls. report_module latin1 demo_fs demo_root (demo_src @ [lit ''ModA'']) [] =
      ([Heading (lit ''ModA''), Blank, FilesScanned 1, PublicDecls 1, Blank] @ ls, None) \<and>
      length (filter is_entry ls) = 1 \<and> filter is_more ls = []"
    unfolding demo_sources_root u demo_files_ModA(2) by simp
  from l(1) a r b c show ?thesis by blast
qed

section \<open>Claims about the program\<close>




end
